theory Spec2Isabelle
  imports Main
begin

section \<open>Data model\<close>

text \<open>
  A row of the bookmark query is the Python tuple
  \<^verbatim>\<open>(id, parent, type, title, url)\<close>; \<open>title\<close> and \<open>url\<close> may be SQL NULL
  (Python \<^verbatim>\<open>None\<close>).
\<close>

type_synonym row = "int \<times> int \<times> int \<times> string option \<times> string option"

text \<open>The dictionary \<^verbatim>\<open>by_id\<close>: id to \<^verbatim>\<open>(title, parent)\<close>.\<close>

type_synonym by_id = "int \<rightharpoonup> (string option \<times> int)"

text \<open>
  A \<^verbatim>\<open>pathlib.Path\<close> value, kept symbolic: \<open>Div a b\<close> is the Python expression
  \<^verbatim>\<open>a / b\<close>.
\<close>

datatype pypath = PurePath string | Div pypath string

text \<open>The exceptions the modelled code can raise.\<close>

datatype error =
    KeyError int
  | IndexError
  | RuntimeError
  | Exception string
  | ConfigError
  | InterpolationError
  | FileNotFoundError pypath
  | SameFileError
  | DatabaseError

text \<open>
  How a run of the listing loop ends: it returns, an exception escapes it, or it
  never returns.  The first component of a run is what has been printed, one
  element per \<^verbatim>\<open>print\<close> call.
\<close>

datatype status = Returned | Raised error | Hangs

type_synonym run = "string list \<times> status"

section \<open>Title rendering\<close>

text \<open>\<^verbatim>\<open>filter(lambda x: x is not None, path)\<close>\<close>

fun filter_not_None :: "'a option list \<Rightarrow> 'a list" where
  "filter_not_None [] = []"
| "filter_not_None (None # xs) = filter_not_None xs"
| "filter_not_None (Some x # xs) = x # filter_not_None xs"

text \<open>\<^verbatim>\<open>separator.join(...)\<close>\<close>

fun join :: "string \<Rightarrow> string list \<Rightarrow> string" where
  "join separator [] = []"
| "join separator [x] = x"
| "join separator (x # y # ys) = x @ separator @ join separator (y # ys)"

definition title_gen_full_path :: "string option list \<Rightarrow> string \<Rightarrow> error + string" where
  "title_gen_full_path path separator = Inr (join separator (filter_not_None path))"

text \<open>\<^verbatim>\<open>list(...)[-1]\<close> raises \<^verbatim>\<open>IndexError\<close> on the empty list.\<close>

definition title_gen_only_name :: "string option list \<Rightarrow> error + string" where
  "title_gen_only_name path =
     (let l = filter_not_None path in if l = [] then Inl IndexError else Inr (last l))"

section \<open>Walking the parent links\<close>

text \<open>
  \<^verbatim>\<open>
  def parent_generator(i, by_id):
      while i > 1:
          title, i = by_id[i]
          yield title
  \<close>
  The only caller takes \<^verbatim>\<open>list(parent_generator(index, by_id))\<close>, so the model
  returns the whole list of yielded titles.  A missing key raises
  \<^verbatim>\<open>KeyError\<close>; a loop that never ends is the value \<open>None\<close>.
\<close>

partial_function (option) parent_generator ::
  "int \<Rightarrow> by_id \<Rightarrow> (error + string option list) option" where
  "parent_generator i by_id =
     (if i > 1 then
        (case by_id i of
           None \<Rightarrow> Some (Inl (KeyError i))
         | Some (title, i') \<Rightarrow>
             Option.bind (parent_generator i' by_id)
               (\<lambda>r. Some (case r of Inl e \<Rightarrow> Inl e | Inr titles \<Rightarrow> Inr (title # titles))))
      else Some (Inr []))"

section \<open>Writing the launcher input\<close>

text \<open>
  \<^verbatim>\<open>all(name == next(path_arr) for name in search_path)\<close>: the outcome of
  \<^verbatim>\<open>all\<close> together with what is left in the one-pass iterator \<^verbatim>\<open>path_arr\<close>.
  \<^verbatim>\<open>next\<close> on the exhausted iterator raises \<^verbatim>\<open>StopIteration\<close> inside the
  generator expression, which the interpreter turns into \<^verbatim>\<open>RuntimeError\<close>
  (the annotation \<^verbatim>\<open>Path | str\<close> of the source needs Python 3.10 or later).
  \<^verbatim>\<open>all\<close> stops at the first name that differs.
\<close>

fun all_next :: "string list \<Rightarrow> string option list \<Rightarrow> error + (bool \<times> string option list)" where
  "all_next [] path_arr = Inr (True, path_arr)"
| "all_next (name # names) [] = Inl RuntimeError"
| "all_next (name # names) (p # path_arr) =
     (if Some name = p then all_next names path_arr else Inr (False, path_arr))"

text \<open>\<^verbatim>\<open>f"{url}"\<close> of \<^verbatim>\<open>None\<close> is the text \<^verbatim>\<open>None\<close>.\<close>

fun format_url :: "string option \<Rightarrow> string" where
  "format_url None = ''None''"
| "format_url (Some url) = url"

text \<open>\<^verbatim>\<open>f"{path}\x00info\x1f{url}"\<close>\<close>

definition entry_line :: "string \<Rightarrow> string option \<Rightarrow> string" where
  "entry_line path url = path @ [CHR 0x00] @ ''info'' @ [CHR 0x1F] @ format_url url"

fun print_then :: "string \<Rightarrow> run \<Rightarrow> run" where
  "print_then l (out, st) = (l # out, st)"

text \<open>The dictionary comprehension of \<^verbatim>\<open>write_rofi_input\<close>: a later row wins.\<close>

definition by_id_of :: "row list \<Rightarrow> by_id" where
  "by_id_of bookmarks =
     fold (\<lambda>(i, parent, _, title, _) m. m(i \<mapsto> (title, parent))) bookmarks Map.empty"

text \<open>The \<^verbatim>\<open>for\<close> loop of \<^verbatim>\<open>write_rofi_input\<close> over the rows.\<close>

fun rofi_loop ::
  "by_id \<Rightarrow> (string option list \<Rightarrow> error + string) \<Rightarrow> string list \<Rightarrow> row list \<Rightarrow> run" where
  "rofi_loop by_id title_gen search_path [] = ([], Returned)"
| "rofi_loop by_id title_gen search_path ((index, parent, t, title, url) # bookmarks) =
     (if t \<noteq> 1 then rofi_loop by_id title_gen search_path bookmarks
      else
        (case parent_generator index by_id of
           None \<Rightarrow> ([], Hangs)
         | Some (Inl e) \<Rightarrow> ([], Raised e)
         | Some (Inr titles) \<Rightarrow>
             (case all_next search_path (rev titles) of
                Inl e \<Rightarrow> ([], Raised e)
              | Inr (False, path_arr) \<Rightarrow> rofi_loop by_id title_gen search_path bookmarks
              | Inr (True, path_arr) \<Rightarrow>
                  (case title_gen path_arr of
                     Inl e \<Rightarrow> ([], Raised e)
                   | Inr path \<Rightarrow>
                       print_then (entry_line path url)
                         (rofi_loop by_id title_gen search_path bookmarks)))))"

definition write_rofi_input ::
  "row list \<Rightarrow> 'f \<Rightarrow> (string option list \<Rightarrow> error + string) \<Rightarrow> string list \<Rightarrow> run" where
  "write_rofi_input bookmarks favicons_gen title_gen search_path =
     rofi_loop (by_id_of bookmarks) title_gen search_path bookmarks"

section \<open>Profile resolution\<close>

text \<open>
  What a lookup \<^verbatim>\<open>i['Default']\<close>, \<^verbatim>\<open>i['Name']\<close> or \<^verbatim>\<open>i['Path']\<close> in a section of a
  parsed INI file gives: the value, \<^verbatim>\<open>KeyError\<close> for a key that is missing, or
  another exception.  The parser is made with \<^verbatim>\<open>ConfigParser()\<close>, which
  interpolates a value when it is looked up and raises
  \<^verbatim>\<open>InterpolationSyntaxError\<close> on, for instance, a value with a lone percent sign.
\<close>

datatype lookup = Found string | NoKey | LookupError error

text \<open>
  A section, as these lookups see it.  The parser itself is the standard
  library's; what \<^verbatim>\<open>ConfigParser.read\<close> followed by \<^verbatim>\<open>values()\<close> gives (an
  exception for a file it rejects, or the sections in file order) is a parameter of
  the two resolvers.
\<close>

type_synonym ini_section = "string \<Rightarrow> lookup"

text \<open>
  \<^verbatim>\<open>
  for i in installs.values():
      with suppress(KeyError):
          return firefox_dir / i['Default']
  raise Exception("could not find a default profile in installs.ini")
  \<close>
  \<^verbatim>\<open>suppress(KeyError)\<close> passes over a missing key only; any other exception of
  the lookup leaves the function.
\<close>

fun default_profile_loop :: "pypath \<Rightarrow> ini_section list \<Rightarrow> error + pypath" where
  "default_profile_loop firefox_dir [] =
     Inl (Exception ''could not find a default profile in installs.ini'')"
| "default_profile_loop firefox_dir (i # installs) =
     (case i ''Default'' of
        NoKey \<Rightarrow> default_profile_loop firefox_dir installs
      | LookupError e \<Rightarrow> Inl e
      | Found d \<Rightarrow> Inr (Div firefox_dir d))"

definition default_profile_path :: "pypath \<Rightarrow> error + ini_section list \<Rightarrow> error + pypath" where
  "default_profile_path firefox_dir installs =
     (case installs of Inl e \<Rightarrow> Inl e | Inr sections \<Rightarrow> default_profile_loop firefox_dir sections)"

text \<open>
  \<^verbatim>\<open>
  for i in profiles.values():
      with suppress(KeyError):
          if i['Name'] == name:
              return firefox_dir / i['Path']
  raise Exception("no profile with this name")
  \<close>
  Both lookups are inside \<^verbatim>\<open>suppress(KeyError)\<close>: a section without \<^verbatim>\<open>Name\<close>, or
  with the right \<^verbatim>\<open>Name\<close> and no \<^verbatim>\<open>Path\<close>, is passed over; a lookup that raises
  anything else ends the function with that exception.
\<close>

fun path_from_name_loop :: "pypath \<Rightarrow> ini_section list \<Rightarrow> string \<Rightarrow> error + pypath" where
  "path_from_name_loop firefox_dir [] name = Inl (Exception ''no profile with this name'')"
| "path_from_name_loop firefox_dir (i # profiles) name =
     (case i ''Name'' of
        NoKey \<Rightarrow> path_from_name_loop firefox_dir profiles name
      | LookupError e \<Rightarrow> Inl e
      | Found n \<Rightarrow>
          if n = name then
            (case i ''Path'' of
               NoKey \<Rightarrow> path_from_name_loop firefox_dir profiles name
             | LookupError e \<Rightarrow> Inl e
             | Found p \<Rightarrow> Inr (Div firefox_dir p))
          else path_from_name_loop firefox_dir profiles name)"

definition path_from_name :: "pypath \<Rightarrow> error + ini_section list \<Rightarrow> string \<Rightarrow> error + pypath" where
  "path_from_name firefox_dir profiles name =
     (case profiles of Inl e \<Rightarrow> Inl e | Inr sections \<Rightarrow> path_from_name_loop firefox_dir sections name)"

section \<open>Reading a database through a temporary copy\<close>

text \<open>
  The part of the machine that \<^verbatim>\<open>temp_sqlite\<close> touches: the files (path to
  content) and the database connections that are open, each named by the file it
  was opened on.
\<close>

record world =
  files :: "pypath \<rightharpoonup> string"
  open_conns :: "pypath set"

text \<open>
  Leaving \<^verbatim>\<open>with NamedTemporaryFile() as temp_loc\<close> removes the file (in the
  standard library of Python 3.12 a file that is already gone is passed over);
  leaving \<^verbatim>\<open>with closing(conn)\<close> calls \<^verbatim>\<open>conn.close()\<close>, which does nothing
  on a connection that is closed already.
\<close>

definition unlink :: "pypath \<Rightarrow> world \<Rightarrow> world" where
  "unlink p w = w\<lparr>files := (files w)(p := None)\<rparr>"

definition close_conn :: "pypath \<Rightarrow> world \<Rightarrow> world" where
  "close_conn c w = w\<lparr>open_conns := open_conns w - {c}\<rparr>"

text \<open>
  \<^verbatim>\<open>
  @contextmanager
  def temp_sqlite(path):
      with NamedTemporaryFile() as temp_loc:
          copyfile(path, temp_loc.name)
          with closing(sqlite3.connect(temp_loc.name)) as conn:
              yield conn
  \<close>
  \<open>tmp\<close> is the name \<^verbatim>\<open>NamedTemporaryFile\<close> picks; \<open>body\<close> is the block run under
  \<^verbatim>\<open>with temp_sqlite(path) as conn\<close>, which may change the world and may raise.
  Both \<^verbatim>\<open>with\<close> statements run their exit on the way out, whether the block
  returned or raised, and what the block returned or raised is passed on.
\<close>

definition temp_sqlite ::
  "string \<Rightarrow> pypath \<Rightarrow> (pypath \<Rightarrow> world \<Rightarrow> (error + 'r) \<times> world) \<Rightarrow> world \<Rightarrow> (error + 'r) \<times> world" where
  "temp_sqlite tmp path body w =
     (let temp_loc = PurePath tmp;
          w1 = w\<lparr>files := (files w)(temp_loc \<mapsto> [])\<rparr>
      in if path = temp_loc then (Inl SameFileError, unlink temp_loc w1)
         else
           (case files w1 path of
              None \<Rightarrow> (Inl (FileNotFoundError path), unlink temp_loc w1)
            | Some content \<Rightarrow>
                (let w2 = w1\<lparr>files := (files w1)(temp_loc \<mapsto> content)\<rparr>;
                     w3 = w2\<lparr>open_conns := insert temp_loc (open_conns w2)\<rparr>;
                     (r, w4) = body temp_loc w3
                 in (r, unlink temp_loc (close_conn temp_loc w4)))))"

text \<open>
  \<^verbatim>\<open>
  with temp_sqlite(profile_loc / 'places.sqlite') as places:
      return places.execute("""SELECT ...""").fetchall()
  \<close>
  \<open>execute\<close> is the database engine answering the query on an open connection.
\<close>

definition get_bookmarks_from_db ::
  "string \<Rightarrow> (pypath \<Rightarrow> world \<Rightarrow> error + row list) \<Rightarrow> pypath \<Rightarrow> world \<Rightarrow> (error + row list) \<times> world" where
  "get_bookmarks_from_db tmp execute profile_loc w =
     temp_sqlite tmp (Div profile_loc ''places.sqlite'')
       (\<lambda>places w'. (execute places w', w')) w"

text \<open>
  \<^verbatim>\<open>favicons_generator(profile_path)\<close> only builds a context manager; nothing
  enters it.  It is kept as the database it would copy.
\<close>

definition favicons_generator :: "pypath \<Rightarrow> pypath" where
  "favicons_generator profile_path = Div profile_path ''favicons.sqlite''"

section \<open>List mode of the main program\<close>

record args =
  args_path :: string
  args_separator :: string
  args_profile :: "string option"

text \<open>What the program takes from its platform.\<close>

record platform =
  home :: pypath
  read_ini :: "pypath \<Rightarrow> error + ini_section list"
  temp_name :: string
  execute_query :: "pypath \<Rightarrow> world \<Rightarrow> error + row list"

definition firefox_dir_of :: "pypath \<Rightarrow> pypath" where
  "firefox_dir_of h = Div h ''.mozilla/firefox''"

text \<open>\<^verbatim>\<open>str.split(sep)\<close> for a separator of one character.\<close>

fun split_on :: "char \<Rightarrow> string \<Rightarrow> string list" where
  "split_on c [] = [[]]"
| "split_on c (x # xs) =
     (if x = c then [] # split_on c xs
      else (case split_on c xs of [] \<Rightarrow> [[x]] | w # ws \<Rightarrow> (x # w) # ws))"

text \<open>
  The line \<^verbatim>\<open>print("\x00prompt\x1f... ")\<close>, as the bytes written to standard
  output (the three characters before the space in their UTF-8 encoding).
\<close>

definition prompt_line :: string where
  "prompt_line = [CHR 0x00] @ ''prompt'' @
     [CHR 0x1F, CHR 0xC3, CHR 0xAF, CHR 0xE2, CHR 0x80, CHR 0xB0, CHR 0xC2, CHR 0xA9] @ '' ''"

text \<open>
  The \<^verbatim>\<open>else\<close> branch of the main block (lines 121 to 128): the call that would
  render full paths with \<^verbatim>\<open>args.separator\<close> is commented out in the source, and
  the call made passes \<^verbatim>\<open>title_gen_only_name\<close>.
\<close>

definition list_mode :: "platform \<Rightarrow> args \<Rightarrow> world \<Rightarrow> run \<times> world" where
  "list_mode pf a w =
     (let search_path = filter (\<lambda>i. i \<noteq> []) (split_on CHR ''/'' (args_path a));
          fd = firefox_dir_of (home pf)
      in case (case args_profile a of
                 None \<Rightarrow> default_profile_path fd (read_ini pf (Div fd ''installs.ini''))
               | Some name \<Rightarrow> path_from_name fd (read_ini pf (Div fd ''profiles.ini'')) name) of
           Inl e \<Rightarrow> (([], Raised e), w)
         | Inr profile_path \<Rightarrow>
             (case get_bookmarks_from_db (temp_name pf) (execute_query pf) profile_path w of
                (Inl e, w') \<Rightarrow> (([prompt_line], Raised e), w')
              | (Inr bookmarks, w') \<Rightarrow>
                  (print_then prompt_line
                     (write_rofi_input bookmarks (favicons_generator profile_path)
                        title_gen_only_name search_path), w')))"

section \<open>Notions used to state the properties\<close>

text \<open>The title stored for an id (absent when the id is not a key).\<close>

definition title_of :: "by_id \<Rightarrow> int \<Rightarrow> string option" where
  "title_of by_id j = (case by_id j of None \<Rightarrow> None | Some (title, p) \<Rightarrow> title)"

text \<open>
  \<open>chain by_id i ids\<close>: the parent links from \<open>i\<close> reach the root sentinel, and
  \<open>ids\<close> are the ids passed on the way, \<open>i\<close> first, each above \<open>1\<close>, each the
  parent of the one before, the parent of the last one being at most \<open>1\<close>.
\<close>

inductive chain :: "by_id \<Rightarrow> int \<Rightarrow> int list \<Rightarrow> bool" for by_id :: by_id where
  chain_root: "i \<le> 1 \<Longrightarrow> chain by_id i []"
| chain_step: "1 < i \<Longrightarrow> by_id i = Some (title, p) \<Longrightarrow> chain by_id p ids \<Longrightarrow>
     chain by_id i (i # ids)"

code_pred chain .

text \<open>
  Following the words of the specification: the titles from the immediate parent
  upward, for a chain that passes \<open>ids\<close> (the id itself being the first of them).
\<close>

definition spec_ancestor_titles :: "by_id \<Rightarrow> int list \<Rightarrow> string option list" where
  "spec_ancestor_titles by_id ids = map (title_of by_id) (tl ids)"

text \<open>
  \<^verbatim>\<open>reversed(list(parent_generator(index, by_id)))\<close> where the walk returns.
\<close>

definition reversed_path :: "by_id \<Rightarrow> int \<Rightarrow> string option list" where
  "reversed_path by_id i =
     (case parent_generator i by_id of Some (Inr titles) \<Rightarrow> rev titles | _ \<Rightarrow> [])"

text \<open>
  The filter agrees with the path at every position of the filter (the path has
  that position, and the element there is exactly the filter's).
\<close>

definition filter_matches :: "string list \<Rightarrow> string option list \<Rightarrow> bool" where
  "filter_matches search_path path \<longleftrightarrow>
     length search_path \<le> length path \<and>
     (\<forall>k < length search_path. path ! k = Some (search_path ! k))"

definition rendered :: "(string option list \<Rightarrow> error + string) \<Rightarrow> string option list \<Rightarrow> string" where
  "rendered title_gen path_arr = (case title_gen path_arr of Inl e \<Rightarrow> [] | Inr path \<Rightarrow> path)"

text \<open>
  One entry line, in row order, for each row of type 1 whose reversed path the
  filter matches; the title is rendered from what the filter leaves of the path.
\<close>

fun matching_entries ::
  "by_id \<Rightarrow> (string option list \<Rightarrow> error + string) \<Rightarrow> string list \<Rightarrow> row list \<Rightarrow> string list" where
  "matching_entries by_id title_gen search_path [] = []"
| "matching_entries by_id title_gen search_path ((index, parent, t, title, url) # bookmarks) =
     (if t = 1 \<and> filter_matches search_path (reversed_path by_id index)
      then [entry_line
              (rendered title_gen (drop (length search_path) (reversed_path by_id index))) url]
      else [])
     @ matching_entries by_id title_gen search_path bookmarks"

text \<open>Running one stretch of the loop after another: the second runs if the first returned.\<close>

fun then_run :: "run \<Rightarrow> run \<Rightarrow> run" where
  "then_run (out, Returned) (out', st) = (out @ out', st)"
| "then_run (out, st) r = (out, st)"

text \<open>The row set of the end-to-end example: a root, the folder Work, the bookmark Mail.\<close>

definition example_rows :: "row list" where
  "example_rows =
     [(1, 0, 2, Some ''root'', None),
      (2, 1, 2, Some ''Work'', None),
      (3, 2, 1, Some ''Mail'', Some ''http://mail.example'')]"

text \<open>
  A bookmark whose parent id is not a key, followed by a folder and a bookmark in it.
\<close>

definition dangling_rows :: "row list" where
  "dangling_rows =
     [(5, 99, 1, Some ''A'', Some ''http://a.example''),
      (2, 1, 2, Some ''Work'', None),
      (3, 2, 1, Some ''Mail'', Some ''http://mail.example'')]"

text \<open>A bookmark that is its own parent, between two bookmarks under the root.\<close>

definition cycle_rows :: "row list" where
  "cycle_rows =
     [(3, 1, 1, Some ''Ok'', Some ''http://ok.example''),
      (2, 2, 1, Some ''Loop'', Some ''http://loop.example''),
      (4, 1, 1, Some ''Later'', Some ''http://later.example'')]"

text \<open>A bookmark without a title, directly under the root.\<close>

definition untitled_rows :: "row list" where
  "untitled_rows =
     [(1, 0, 2, Some ''root'', None),
      (2, 1, 1, None, Some ''http://x.example'')]"

text \<open>A section whose keys all interpolate to the values given.\<close>

definition section_of :: "(string \<rightharpoonup> string) \<Rightarrow> ini_section" where
  "section_of m key = (case m key of None \<Rightarrow> NoKey | Some v \<Rightarrow> Found v)"

text \<open>
  The scan of \<^verbatim>\<open>path_from_name\<close> does not go past this section: its \<^verbatim>\<open>Name\<close> is the
  requested name, or the lookup of its \<^verbatim>\<open>Name\<close> raises.
\<close>

definition stops_scan :: "string \<Rightarrow> ini_section \<Rightarrow> bool" where
  "stops_scan name i =
     (case i ''Name'' of Found n \<Rightarrow> n = name | NoKey \<Rightarrow> False | LookupError e \<Rightarrow> True)"

text \<open>
  Following the words of the specification: the first section whose \<^verbatim>\<open>Name\<close>
  field equals the requested name.
\<close>

definition spec_first_named :: "ini_section list \<Rightarrow> string \<Rightarrow> ini_section option" where
  "spec_first_named sections name = find (\<lambda>i. i ''Name'' = Found name) sections"

text \<open>
  The sections of a profiles file: the defaults, which have neither key, and two
  profiles.
\<close>

definition named_sections :: "ini_section list" where
  "named_sections =
     [section_of Map.empty,
      section_of [''Name'' \<mapsto> ''home'', ''Path'' \<mapsto> ''Profiles/a.home''],
      section_of [''Name'' \<mapsto> ''work'', ''Path'' \<mapsto> ''Profiles/b.work'']]"

text \<open>
  Two profiles, each with a \<^verbatim>\<open>Name\<close> and a \<^verbatim>\<open>Path\<close> key; the name of the first
  is written with a lone percent sign (such as \<^verbatim>\<open>Name=100%\<close>), so that looking it
  up raises.
\<close>

definition percent_sections :: "ini_section list" where
  "percent_sections =
     [(section_of [''Path'' \<mapsto> ''Profiles/a.half''])(''Name'' := LookupError InterpolationError),
      section_of [''Name'' \<mapsto> ''work'', ''Path'' \<mapsto> ''Profiles/b.work'']]"

text \<open>
  The comparison of \<^verbatim>\<open>write_rofi_input\<close> runs off the end of the path: the path is
  shorter than the filter and agrees with it at every position it has.
\<close>

definition runs_off_end :: "string list \<Rightarrow> string option list \<Rightarrow> bool" where
  "runs_off_end search_path path \<longleftrightarrow>
     length path < length search_path \<and>
     (\<forall>k < length path. path ! k = Some (search_path ! k))"

text \<open>A world with one bookmark database and no open connection.\<close>

definition example_world :: world where
  "example_world =
     \<lparr>files = [Div (PurePath ''/profile'') ''places.sqlite'' \<mapsto> ''bytes''], open_conns = {}\<rparr>"

text \<open>A block that raises as soon as it runs.\<close>

definition failing_body :: "pypath \<Rightarrow> world \<Rightarrow> (error + row list) \<times> world" where
  "failing_body conn w = (Inl DatabaseError, w)"

text \<open>
  A platform for a run in list mode: one install section with a default profile,
  and a database engine that answers the query with the example rows.
\<close>

definition example_platform :: platform where
  "example_platform =
     \<lparr>home = PurePath ''/home/u'',
      read_ini = (\<lambda>p. Inr [section_of Map.empty,
                           section_of [''Default'' \<mapsto> ''Profiles/a.default'']]),
      temp_name = ''/tmp/tmpabc'',
      execute_query = (\<lambda>conn w. Inr example_rows)\<rparr>"

definition example_args :: args where
  "example_args = \<lparr>args_path = ''Work'', args_separator = '' / '', args_profile = None\<rparr>"

definition profile_world :: world where
  "profile_world =
     \<lparr>files = [Div (Div (Div (PurePath ''/home/u'') ''.mozilla/firefox'') ''Profiles/a.default'')
                  ''places.sqlite'' \<mapsto> ''bytes''],
      open_conns = {}\<rparr>"

section \<open>Properties of the parent walk\<close>

lemma parent_generator_root:
  "i \<le> 1 \<Longrightarrow> parent_generator i by_id = Some (Inr [])"
  by (subst parent_generator.simps) simp

lemma parent_generator_missing:
  "1 < i \<Longrightarrow> by_id i = None \<Longrightarrow> parent_generator i by_id = Some (Inl (KeyError i))"
  by (subst parent_generator.simps) simp

lemma parent_generator_step:
  "1 < i \<Longrightarrow> by_id i = Some (title, p) \<Longrightarrow>
   parent_generator i by_id =
     Option.bind (parent_generator p by_id)
       (\<lambda>r. Some (case r of Inl e \<Rightarrow> Inl e | Inr titles \<Rightarrow> Inr (title # titles)))"
  by (subst parent_generator.simps) simp

lemmas pg_induct = parent_generator.raw_induct[rotated 1, consumes 1, case_names step]

lemma chain_titles:
  "chain by_id i ids \<Longrightarrow> parent_generator i by_id = Some (Inr (map (title_of by_id) ids))"
proof (induction rule: chain.induct)
  case (chain_root i)
  then show ?case by (simp add: parent_generator_root)
next
  case (chain_step i title p ids)
  then show ?case by (simp add: parent_generator_step title_of_def)
qed

lemma titles_chain:
  "parent_generator i by_id = Some r \<Longrightarrow>
   (case r of Inr ts \<Rightarrow> \<exists>ids. chain by_id i ids \<and> ts = map (title_of by_id) ids
            | Inl e \<Rightarrow> \<exists>j. e = KeyError j \<and> 1 < j \<and> by_id j = None)"
proof (induction rule: pg_induct)
  case (step pg i by_id r)
  show ?case
  proof (cases "1 < i")
    case False
    with step(2) show ?thesis by (auto simp: chain_root)
  next
    case True
    show ?thesis
    proof (cases "by_id i")
      case None
      with True step(2) show ?thesis by auto
    next
      case (Some a)
      obtain title p where a: "a = (title, p)" by (cases a)
      from step(2) True Some a obtain r' where r': "pg p by_id = Some r'"
        and r: "r = (case r' of Inl e \<Rightarrow> Inl e | Inr titles \<Rightarrow> Inr (title # titles))"
        by (auto simp: bind_eq_Some_conv)
      from step(1)[OF r'] show ?thesis
      proof (cases r')
        case (Inl e)
        with step(1)[OF r'] r show ?thesis by simp
      next
        case (Inr ts)
        with step(1)[OF r'] obtain ids where "chain by_id p ids" "ts = map (title_of by_id) ids"
          by auto
        with True Some a have "chain by_id i (i # ids)" by (auto intro: chain_step)
        with Inr r \<open>ts = map (title_of by_id) ids\<close> Some a show ?thesis
          by (auto simp: title_of_def intro!: exI[of _ "i # ids"])
      qed
    qed
  qed
qed

lemma self_parent_hangs:
  assumes "1 < i" "by_id i = Some (title, i)"
  shows "parent_generator i by_id = None"
proof (rule ccontr)
  assume "parent_generator i by_id \<noteq> None"
  then obtain r where r: "parent_generator i by_id = Some r" by auto
  have "\<not> (i' = i \<and> by_id' = by_id)" if "parent_generator i' by_id' = Some r'" for i' by_id' r'
    using that
  proof (induction rule: pg_induct)
    case (step pg i' by_id' r')
    show ?case
    proof
      assume "i' = i \<and> by_id' = by_id"
      with step(2) assms obtain r'' where "pg i by_id = Some r''"
        by (auto simp: bind_eq_Some_conv)
      from step(1)[OF this] show False by simp
    qed
  qed
  from this[OF r] show False by simp
qed

section \<open>Properties of the listing loop\<close>

lemma filter_matches_Nil: "filter_matches [] path"
  by (simp add: filter_matches_def)

lemma filter_matches_Cons_Nil: "\<not> filter_matches (name # names) []"
  by (simp add: filter_matches_def)

lemma filter_matches_Cons_Cons:
  "filter_matches (name # names) (p # path) \<longleftrightarrow> p = Some name \<and> filter_matches names path"
  by (auto simp: filter_matches_def nth_Cons split: nat.splits)

lemmas filter_matches_simps =
  filter_matches_Nil filter_matches_Cons_Nil filter_matches_Cons_Cons

lemma all_next_True:
  "all_next search_path path = Inr (True, rest) \<longleftrightarrow>
     filter_matches search_path path \<and> rest = drop (length search_path) path"
  by (induction search_path path rule: all_next.induct)
     (auto simp: filter_matches_simps)

lemma all_next_False:
  "all_next search_path path = Inr (False, rest) \<Longrightarrow> \<not> filter_matches search_path path"
  by (induction search_path path rule: all_next.induct)
     (auto simp: filter_matches_simps split: if_splits)

lemma all_next_raises:
  "all_next search_path path = Inl e \<Longrightarrow>
     e = RuntimeError \<and> length path < length search_path"
  by (induction search_path path rule: all_next.induct) (auto split: if_splits)

lemma rofi_loop_append:
  "rofi_loop by_id title_gen search_path (xs @ ys) =
     then_run (rofi_loop by_id title_gen search_path xs) (rofi_loop by_id title_gen search_path ys)"
proof (induction xs)
  case Nil
  show ?case by (cases "rofi_loop by_id title_gen search_path ys") simp
next
  case (Cons x xs)
  obtain index parent t title url where x: "x = (index, parent, t, title, url)"
    by (cases x)
  obtain out st where r: "rofi_loop by_id title_gen search_path xs = (out, st)"
    by (cases "rofi_loop by_id title_gen search_path xs")
  obtain out' st' where r': "rofi_loop by_id title_gen search_path ys = (out', st')"
    by (cases "rofi_loop by_id title_gen search_path ys")
  show ?case using Cons r r' unfolding x
    by (cases st) (auto split: option.splits sum.splits bool.splits)
qed

lemma rofi_loop_returned:
  "rofi_loop by_id title_gen search_path bookmarks = (out, Returned) \<Longrightarrow>
   out = matching_entries by_id title_gen search_path bookmarks"
proof (induction bookmarks arbitrary: out)
  case Nil
  then show ?case by simp
next
  case (Cons x xs)
  obtain index parent t title url where x: "x = (index, parent, t, title, url)"
    by (cases x)
  obtain out' st' where r: "rofi_loop by_id title_gen search_path xs = (out', st')"
    by (cases "rofi_loop by_id title_gen search_path xs")
  show ?case
  proof (cases "t = 1")
    case False
    with Cons x show ?thesis by simp
  next
    case True
    from Cons.prems True x obtain titles where pg: "parent_generator index by_id = Some (Inr titles)"
      by (auto split: option.splits sum.splits)
    then have rp: "reversed_path by_id index = rev titles" by (simp add: reversed_path_def)
    from Cons.prems True x pg obtain b rest where an: "all_next search_path (rev titles) = Inr (b, rest)"
      by (auto split: sum.splits)
    show ?thesis
    proof (cases b)
      case False
      with an have "\<not> filter_matches search_path (rev titles)" by (simp add: all_next_False)
      with Cons True x pg an False rp show ?thesis by simp
    next
      case b: True
      with an have fm: "filter_matches search_path (rev titles)"
        and rest: "rest = drop (length search_path) (rev titles)"
        by (simp_all add: all_next_True)
      from Cons.prems True x pg an b obtain path where tg: "title_gen rest = Inr path"
        by (auto split: sum.splits)
      from Cons.prems True x pg an b tg r have "st' = Returned" "out = entry_line path url # out'"
        by auto
      with Cons.IH r have "out' = matching_entries by_id title_gen search_path xs" by simp
      with \<open>out = entry_line path url # out'\<close> x True fm rest rp tg show ?thesis
        by (simp add: rendered_def)
    qed
  qed
qed

lemma parent_generator_unfold:
  "1 < i \<Longrightarrow>
   parent_generator i by_id =
     (case by_id i of
        None \<Rightarrow> Some (Inl (KeyError i))
      | Some (title, i') \<Rightarrow>
          Option.bind (parent_generator i' by_id)
            (\<lambda>r. Some (case r of Inl e \<Rightarrow> Inl e | Inr titles \<Rightarrow> Inr (title # titles))))"
  by (subst parent_generator.simps) simp

lemmas parent_generator_eval = parent_generator_unfold parent_generator_root

lemma chain_ids:
  "chain by_id i ids \<Longrightarrow>
   (ids = [] \<longleftrightarrow> i \<le> 1) \<and> (\<forall>j \<in> set ids. 1 < j) \<and> (ids \<noteq> [] \<longrightarrow> hd ids = i)"
  by (induction rule: chain.induct) auto

lemma not_chain_walk:
  assumes "\<not> (\<exists>ids. chain by_id i ids)"
  shows "parent_generator i by_id = None \<or> (\<exists>j. parent_generator i by_id = Some (Inl (KeyError j)))"
proof (cases "parent_generator i by_id")
  case None
  then show ?thesis by simp
next
  case (Some r)
  from titles_chain[OF Some] assms show ?thesis using Some by (cases r) auto
qed

subsection \<open>The example row sets\<close>

lemma by_id_example:
  "by_id_of example_rows =
     [1 \<mapsto> (Some ''root'', 0), 2 \<mapsto> (Some ''Work'', 1), 3 \<mapsto> (Some ''Mail'', 2)]"
  by (simp add: by_id_of_def example_rows_def)

lemma chain_example: "chain (by_id_of example_rows) 3 [3, 2]"
  unfolding by_id_example
  by (rule chain_step[where title = "Some ''Mail''" and p = 2], simp, simp,
      rule chain_step[where title = "Some ''Work''" and p = 1], simp, simp,
      rule chain_root, simp)

lemma parent_generator_example:
  "parent_generator 3 (by_id_of example_rows) = Some (Inr [Some ''Mail'', Some ''Work''])"
  using chain_titles[OF chain_example] by (simp add: by_id_example title_of_def)

lemma cycle_by_id:
  "by_id_of cycle_rows =
     [3 \<mapsto> (Some ''Ok'', 1), 2 \<mapsto> (Some ''Loop'', 2), 4 \<mapsto> (Some ''Later'', 1)]"
  by (simp add: by_id_of_def cycle_rows_def)

lemma cycle_hangs: "parent_generator 2 (by_id_of cycle_rows) = None"
  by (rule self_parent_hangs[where title = "Some ''Loop''"]) (simp_all add: cycle_by_id)

lemma cycle_no_chain: "\<not> (\<exists>ids. chain (by_id_of cycle_rows) 2 ids)"
  using chain_titles[of "by_id_of cycle_rows" 2] cycle_hangs by auto

section \<open>The filtering policy (C1)\<close>

lemma runs_off_end_Cons_Nil: "runs_off_end (name # names) []"
  by (simp add: runs_off_end_def)

lemma runs_off_end_Nil: "\<not> runs_off_end [] path"
  by (simp add: runs_off_end_def)

lemma runs_off_end_Cons_Cons:
  "runs_off_end (name # names) (p # path) \<longleftrightarrow> p = Some name \<and> runs_off_end names path"
  by (auto simp: runs_off_end_def nth_Cons split: nat.splits)

lemmas runs_off_end_simps = runs_off_end_Nil runs_off_end_Cons_Nil runs_off_end_Cons_Cons

lemma all_next_raises_off_end:
  "all_next search_path path = Inl e \<Longrightarrow> runs_off_end search_path path"
  by (induction search_path path rule: all_next.induct)
     (auto simp: runs_off_end_simps split: if_splits)

text \<open>
  The loop on rows that it can handle: it returns, having printed the entries of
  the matching rows of type 1.
\<close>

lemma rofi_loop_total:
  assumes "\<forall>row \<in> set bookmarks. fst (snd (snd row)) = 1 \<longrightarrow>
             (\<exists>ids. chain by_id (fst row) ids) \<and>
             \<not> runs_off_end search_path (reversed_path by_id (fst row)) \<and>
             (filter_matches search_path (reversed_path by_id (fst row)) \<longrightarrow>
                (\<exists>path. title_gen (drop (length search_path) (reversed_path by_id (fst row)))
                          = Inr path))"
  shows "rofi_loop by_id title_gen search_path bookmarks =
           (matching_entries by_id title_gen search_path bookmarks, Returned)"
  using assms
proof (induction bookmarks)
  case Nil
  show ?case by simp
next
  case (Cons x xs)
  obtain index parent t title url where x: "x = (index, parent, t, title, url)"
    by (cases x)
  from Cons.prems have "\<forall>row \<in> set xs. fst (snd (snd row)) = 1 \<longrightarrow>
             (\<exists>ids. chain by_id (fst row) ids) \<and>
             \<not> runs_off_end search_path (reversed_path by_id (fst row)) \<and>
             (filter_matches search_path (reversed_path by_id (fst row)) \<longrightarrow>
                (\<exists>path. title_gen (drop (length search_path) (reversed_path by_id (fst row)))
                          = Inr path))"
    by simp
  from Cons.IH[OF this] have rest:
    "rofi_loop by_id title_gen search_path xs =
       (matching_entries by_id title_gen search_path xs, Returned)" .
  show ?case
  proof (cases "t = 1")
    case False
    with x rest show ?thesis by simp
  next
    case True
    from Cons.prems x True obtain ids where ch: "chain by_id index ids"
      and off: "\<not> runs_off_end search_path (reversed_path by_id index)"
      and ren: "filter_matches search_path (reversed_path by_id index) \<longrightarrow>
                (\<exists>path. title_gen (drop (length search_path) (reversed_path by_id index)) = Inr path)"
      by auto
    from chain_titles[OF ch] obtain titles where
      pg: "parent_generator index by_id = Some (Inr titles)" by blast
    then have rp: "reversed_path by_id index = rev titles" by (simp add: reversed_path_def)
    from off rp all_next_raises_off_end obtain b left where
      an: "all_next search_path (rev titles) = Inr (b, left)"
      by (cases "all_next search_path (rev titles)") auto
    show ?thesis
    proof (cases b)
      case False
      with an have "\<not> filter_matches search_path (rev titles)" by (simp add: all_next_False)
      with x True pg an False rp rest show ?thesis by simp
    next
      case b: True
      with an have fm: "filter_matches search_path (rev titles)"
        and left: "left = drop (length search_path) (rev titles)"
        by (simp_all add: all_next_True)
      from ren fm rp left obtain path where tg: "title_gen left = Inr path" by auto
      with x True pg an b fm left rp rest show ?thesis by (simp add: rendered_def)
    qed
  qed
qed

text \<open>
  C1, as the code has it.  Take a row set and a search filter such that, for every
  row of type 1: its parent chain reaches the root sentinel; the comparison does
  not run off the end of its reversed path (the titles yielded by
  \<open>parent_generator\<close>, reversed, so root first and the bookmark's own title last);
  and, if the filter matches that path, the renderer returns a title for what the
  filter leaves of it.  Then the run returns, and what it printed is exactly one
  entry line, in row order, for each row of type 1 whose reversed path has every
  position of the filter and carries there exactly the filter's element, and
  nothing for any other row.
\<close>

theorem well_formed_run_prints_matching_rows:
  assumes "\<forall>(index, parent, t, title, url) \<in> set bookmarks. t = 1 \<longrightarrow>
             (\<exists>ids. chain (by_id_of bookmarks) index ids) \<and>
             \<not> runs_off_end search_path (reversed_path (by_id_of bookmarks) index) \<and>
             (filter_matches search_path (reversed_path (by_id_of bookmarks) index) \<longrightarrow>
                (\<exists>path. title_gen (drop (length search_path)
                                     (reversed_path (by_id_of bookmarks) index)) = Inr path))"
  shows "write_rofi_input bookmarks fav title_gen search_path =
           (matching_entries (by_id_of bookmarks) title_gen search_path bookmarks, Returned)"
proof -
  from assms have "\<forall>row \<in> set bookmarks. fst (snd (snd row)) = 1 \<longrightarrow>
             (\<exists>ids. chain (by_id_of bookmarks) (fst row) ids) \<and>
             \<not> runs_off_end search_path (reversed_path (by_id_of bookmarks) (fst row)) \<and>
             (filter_matches search_path (reversed_path (by_id_of bookmarks) (fst row)) \<longrightarrow>
                (\<exists>path. title_gen (drop (length search_path)
                                     (reversed_path (by_id_of bookmarks) (fst row))) = Inr path))"
    by (simp add: case_prod_beta)
  then show ?thesis
    unfolding write_rofi_input_def by (rule rofi_loop_total)
qed

lemma example_run_Work:
  "write_rofi_input example_rows () title_gen_only_name [''Work''] =
     ([entry_line ''Mail'' (Some ''http://mail.example'')], Returned)"
  using parent_generator_example
  by (simp add: write_rofi_input_def example_rows_def title_gen_only_name_def)

lemma example_reversed_path:
  "reversed_path (by_id_of example_rows) 3 = [Some ''Work'', Some ''Mail'']"
  by (simp add: reversed_path_def parent_generator_example)

text \<open>
  C1, witness: the example rows with the filter \<open>[Work]\<close>.  The one row of type 1,
  the bookmark Mail, has a chain to the root and the reversed path \<open>[Work, Mail]\<close>,
  which is longer than the filter and leaves the title Mail to the renderer; the
  run returns and the entry of Mail is the output.
\<close>

theorem well_formed_run_prints_matching_rows_witness:
  "chain (by_id_of example_rows) 3 [3, 2] \<and>
   reversed_path (by_id_of example_rows) 3 = [Some ''Work'', Some ''Mail''] \<and>
   title_gen_only_name [Some ''Mail''] = Inr ''Mail'' \<and>
   write_rofi_input example_rows () title_gen_only_name [''Work''] =
     ([entry_line ''Mail'' (Some ''http://mail.example'')], Returned)"
proof -
  have rows: "\<forall>(index, parent, t, title, url) \<in> set example_rows. t = 1 \<longrightarrow>
      (\<exists>ids. chain (by_id_of example_rows) index ids) \<and>
      \<not> runs_off_end [''Work''] (reversed_path (by_id_of example_rows) index) \<and>
      (filter_matches [''Work''] (reversed_path (by_id_of example_rows) index) \<longrightarrow>
         (\<exists>path. title_gen_only_name (drop (length [''Work''])
                    (reversed_path (by_id_of example_rows) index)) = Inr path))"
  proof
    fix row assume "row \<in> set example_rows"
    then consider "row = (1, 0, 2, Some ''root'', None)" | "row = (2, 1, 2, Some ''Work'', None)"
      | "row = (3, 2, 1, Some ''Mail'', Some ''http://mail.example'')"
      by (auto simp: example_rows_def)
    then show "case row of (index, parent, t, title, url) \<Rightarrow> t = 1 \<longrightarrow>
      (\<exists>ids. chain (by_id_of example_rows) index ids) \<and>
      \<not> runs_off_end [''Work''] (reversed_path (by_id_of example_rows) index) \<and>
      (filter_matches [''Work''] (reversed_path (by_id_of example_rows) index) \<longrightarrow>
         (\<exists>path. title_gen_only_name (drop (length [''Work''])
                    (reversed_path (by_id_of example_rows) index)) = Inr path))"
    proof cases
      case 1
      then show ?thesis by simp
    next
      case 2
      then show ?thesis by simp
    next
      case 3
      have "\<exists>ids. chain (by_id_of example_rows) 3 ids" using chain_example by blast
      with 3 show ?thesis
        by (simp add: example_reversed_path runs_off_end_simps title_gen_only_name_def)
    qed
  qed
  have entries: "matching_entries (by_id_of example_rows) title_gen_only_name [''Work''] example_rows =
      [entry_line ''Mail'' (Some ''http://mail.example'')]"
    by (subst (2) example_rows_def)
       (simp add: example_reversed_path filter_matches_simps rendered_def title_gen_only_name_def)
  from well_formed_run_prints_matching_rows[OF rows, of "()"] entries
  have "write_rofi_input example_rows () title_gen_only_name [''Work''] =
     ([entry_line ''Mail'' (Some ''http://mail.example'')], Returned)"
    by simp
  with chain_example example_reversed_path show ?thesis
    by (simp add: title_gen_only_name_def)
qed

text \<open>
  C1, counterexample to the claim for every row set: the bookmark with id 3 has
  the reversed path \<open>[Work, Mail]\<close>, which agrees with the filter \<open>[Work]\<close> at
  every position of the filter, and yet nothing is printed, because the walk for the
  row before it raises \<^verbatim>\<open>KeyError\<close> on the parent id 99 and ends the run.
\<close>

theorem matching_row_after_dangling_row_not_listed:
  "write_rofi_input dangling_rows () title_gen_only_name [''Work''] = ([], Raised (KeyError 99)) \<and>
   reversed_path (by_id_of dangling_rows) 3 = [Some ''Work'', Some ''Mail''] \<and>
   filter_matches [''Work''] (reversed_path (by_id_of dangling_rows) 3)"
  by (simp add: write_rofi_input_def dangling_rows_def by_id_of_def reversed_path_def
        parent_generator_eval filter_matches_simps)

section \<open>Records whose parent chain does not reach the root (C2)\<close>

lemma malformed_row_step:
  assumes "\<not> (\<exists>ids. chain by_id index ids)"
  shows "\<exists>st. rofi_loop by_id title_gen search_path ((index, parent, 1, title, url) # post) = ([], st)
           \<and> (st = Hangs \<or> (\<exists>j. st = Raised (KeyError j)))"
  using not_chain_walk[OF assms] by auto

text \<open>
  C2, as the code has it.  A row of type 1 whose parent chain does not reach the
  root sentinel is not skipped: the run does not return.  What is printed is what
  the rows before that row printed, so no later bookmark appears; and if the rows
  before it were all handled, the run ends at this row, either never returning (a
  cycle) or raising \<^verbatim>\<open>KeyError\<close> (a parent id that is not a key).
\<close>

theorem malformed_chain_ends_listing:
  assumes "bookmarks = pre @ (index, parent, 1, title, url) # post"
      and "\<not> (\<exists>ids. chain (by_id_of bookmarks) index ids)"
  shows "\<exists>st. write_rofi_input bookmarks fav title_gen search_path =
                 (fst (rofi_loop (by_id_of bookmarks) title_gen search_path pre), st)
             \<and> st \<noteq> Returned
             \<and> (snd (rofi_loop (by_id_of bookmarks) title_gen search_path pre) = Returned \<longrightarrow>
                   st = Hangs \<or> (\<exists>j. st = Raised (KeyError j)))"
proof -
  obtain out st0 where pre: "rofi_loop (by_id_of bookmarks) title_gen search_path pre = (out, st0)"
    by (cases "rofi_loop (by_id_of bookmarks) title_gen search_path pre")
  from malformed_row_step[OF assms(2)] obtain st1 where
    row: "rofi_loop (by_id_of bookmarks) title_gen search_path ((index, parent, 1, title, url) # post) = ([], st1)"
    and st1: "st1 = Hangs \<or> (\<exists>j. st1 = Raised (KeyError j))"
    by blast
  have run: "write_rofi_input bookmarks fav title_gen search_path = then_run (out, st0) ([], st1)"
    unfolding write_rofi_input_def
    by (subst (2) assms(1)) (simp only: rofi_loop_append pre row)
  show ?thesis
  proof (cases st0)
    case Returned
    with run pre st1 show ?thesis by auto
  next
    case (Raised e)
    with run pre show ?thesis by auto
  next
    case Hangs
    with run pre show ?thesis by auto
  qed
qed

text \<open>
  C2, witness: the bookmark with id 2 is its own parent; the entry of the bookmark
  before it is printed and the run does not return.
\<close>

theorem malformed_chain_ends_listing_witness:
  "cycle_rows = [(3, 1, 1, Some ''Ok'', Some ''http://ok.example'')]
                @ (2, 2, 1, Some ''Loop'', Some ''http://loop.example'')
                # [(4, 1, 1, Some ''Later'', Some ''http://later.example'')] \<and>
   \<not> (\<exists>ids. chain (by_id_of cycle_rows) 2 ids) \<and>
   (\<exists>st. write_rofi_input cycle_rows () title_gen_only_name [] =
            ([entry_line ''Ok'' (Some ''http://ok.example'')], st) \<and> st \<noteq> Returned)"
proof -
  have split: "cycle_rows = [(3, 1, 1, Some ''Ok'', Some ''http://ok.example'')]
                @ (2, 2, 1, Some ''Loop'', Some ''http://loop.example'')
                # [(4, 1, 1, Some ''Later'', Some ''http://later.example'')]"
    by (simp add: cycle_rows_def)
  have pre: "rofi_loop (by_id_of cycle_rows) title_gen_only_name []
               [(3, 1, 1, Some ''Ok'', Some ''http://ok.example'')] =
             ([entry_line ''Ok'' (Some ''http://ok.example'')], Returned)"
    by (simp add: cycle_by_id parent_generator_eval title_gen_only_name_def)
  from malformed_chain_ends_listing[OF split cycle_no_chain, of "()" title_gen_only_name "[]"]
  have "\<exists>st. write_rofi_input cycle_rows () title_gen_only_name [] =
            ([entry_line ''Ok'' (Some ''http://ok.example'')], st) \<and> st \<noteq> Returned"
    unfolding pre by auto
  with split cycle_no_chain show ?thesis by blast
qed

text \<open>
  C2, counterexample: with a record that is its own parent the run never returns,
  and the valid bookmark Later, which comes after it, is not in the output.
\<close>

theorem self_parent_record_hangs_listing:
  "write_rofi_input cycle_rows () title_gen_only_name [] =
     ([entry_line ''Ok'' (Some ''http://ok.example'')], Hangs)"
proof -
  have "parent_generator 3 (by_id_of cycle_rows) = Some (Inr [Some ''Ok''])"
    by (simp add: cycle_by_id parent_generator_eval)
  with cycle_hangs show ?thesis
    by (simp add: write_rofi_input_def cycle_rows_def title_gen_only_name_def)
qed

section \<open>What the parent walk yields (C3)\<close>

text \<open>
  C3, as the code has it.  For every id and every index whose chain from that id
  reaches the root sentinel, \<open>parent_generator\<close> returns the titles of the ids on
  the chain: first the title stored for the id itself, then the titles from the
  immediate parent upward.  It stops as soon as the current id is at most 1 (for
  such an id at once, with no title), and no id on the chain, so no sentinel, is
  at most 1.
\<close>

theorem parent_generator_own_title_then_ancestors:
  assumes "chain by_id i ids"
  shows "parent_generator i by_id = Some (Inr (map (title_of by_id) ids))
       \<and> (ids = [] \<longleftrightarrow> i \<le> 1)
       \<and> (\<forall>j \<in> set ids. 1 < j)
       \<and> (ids \<noteq> [] \<longrightarrow> hd ids = i \<and>
            map (title_of by_id) ids = title_of by_id i # spec_ancestor_titles by_id ids)"
  using assms chain_titles[OF assms] chain_ids[OF assms]
  by (cases ids) (auto simp: spec_ancestor_titles_def)

text \<open>
  C3, witness: in the example rows the chain from the bookmark 3 passes 3 and 2,
  and the walk yields Mail, then Work.
\<close>

theorem parent_generator_own_title_then_ancestors_witness:
  "chain (by_id_of example_rows) 3 [3, 2] \<and>
   parent_generator 3 (by_id_of example_rows) = Some (Inr [Some ''Mail'', Some ''Work''])"
  using parent_generator_own_title_then_ancestors[OF chain_example] chain_example
  by (simp add: by_id_example title_of_def)

text \<open>
  C3, counterexample: the titles from the immediate parent of the bookmark 3 upward
  are just Work, and the walk does not return exactly these.
\<close>

theorem parent_generator_not_parents_only:
  "chain (by_id_of example_rows) 3 [3, 2] \<and>
   spec_ancestor_titles (by_id_of example_rows) [3, 2] = [Some ''Work''] \<and>
   parent_generator 3 (by_id_of example_rows)
     \<noteq> Some (Inr (spec_ancestor_titles (by_id_of example_rows) [3, 2]))"
  using chain_example parent_generator_example
  by (simp add: spec_ancestor_titles_def by_id_example title_of_def)

section \<open>The end-to-end example (C5)\<close>

text \<open>
  C5, as the code has it.  On the example rows, with the empty filter and full-path
  rendering with the separator \<^verbatim>\<open>" / "\<close>, the run returns after printing one
  entry line: \<^verbatim>\<open>Work / Mail\<close>, the NUL byte, \<^verbatim>\<open>info\<close>, the unit separator, and
  the URL directly after it.
\<close>

theorem example_full_path_output:
  "write_rofi_input example_rows fav (\<lambda>path. title_gen_full_path path '' / '') [] =
     ([''Work / Mail'' @ [CHR 0x00] @ ''info'' @ [CHR 0x1F] @ ''http://mail.example''], Returned)"
  using parent_generator_example
  by (simp add: write_rofi_input_def example_rows_def title_gen_full_path_def entry_line_def)

text \<open>
  C5, counterexample: the line of the claim has a space between the unit separator
  and the URL; the output is not that line.
\<close>

theorem example_full_path_output_no_space:
  "fst (write_rofi_input example_rows () (\<lambda>path. title_gen_full_path path '' / '') [])
     \<noteq> [''Work / Mail'' @ [CHR 0x00] @ ''info'' @ [CHR 0x1F] @ '' http://mail.example'']"
  using parent_generator_example
  by (simp add: write_rofi_input_def example_rows_def title_gen_full_path_def entry_line_def)

section \<open>A path shorter than the filter (C4)\<close>

lemma only_name_Nil: "title_gen_only_name [] = Inl IndexError"
  by (simp add: title_gen_only_name_def)

lemma short_row_step:
  assumes "length (reversed_path by_id index) < length search_path"
  shows "(\<exists>st. st \<noteq> Returned \<and>
            rofi_loop by_id title_gen search_path ((index, parent, t, title, url) # post) = ([], st))
       \<or> rofi_loop by_id title_gen search_path ((index, parent, t, title, url) # post) =
            rofi_loop by_id title_gen search_path post"
proof (cases "t = 1")
  case False
  then show ?thesis by simp
next
  case True
  show ?thesis
  proof (cases "parent_generator index by_id")
    case None
    with True show ?thesis by simp
  next
    case (Some r)
    show ?thesis
    proof (cases r)
      case (Inl e)
      with True Some show ?thesis by simp
    next
      case (Inr titles)
      with Some assms have short: "length (rev titles) < length search_path"
        by (simp add: reversed_path_def)
      show ?thesis
      proof (cases "all_next search_path (rev titles)")
        case (Inl e)
        with True Some Inr show ?thesis by simp
      next
        case inr: (Inr br)
        obtain b rest where br: "br = (b, rest)" by (cases br)
        have "\<not> b"
        proof
          assume b
          with inr br have "filter_matches search_path (rev titles)"
            by (simp add: all_next_True)
          with short show False by (simp add: filter_matches_def)
        qed
        with True Some Inr inr br show ?thesis by simp
      qed
    qed
  qed
qed

text \<open>
  C4.  A row whose reversed path has fewer elements than the search filter adds no
  line to the output, whatever the renderer: the output of the run is what the rows
  before it print, followed at most by what the rows after it print.  (Where the
  filter agrees with the whole of the shorter path, \<^verbatim>\<open>next\<close> runs off the end and
  the run stops there with \<^verbatim>\<open>RuntimeError\<close>; otherwise the row is passed over.)
\<close>

theorem short_path_never_emitted:
  assumes "bookmarks = pre @ (index, parent, t, title, url) # post"
      and "length (reversed_path (by_id_of bookmarks) index) < length search_path"
  shows "fst (write_rofi_input bookmarks fav title_gen search_path) =
           fst (rofi_loop (by_id_of bookmarks) title_gen search_path pre)
       \<or> fst (write_rofi_input bookmarks fav title_gen search_path) =
           fst (rofi_loop (by_id_of bookmarks) title_gen search_path pre)
           @ fst (rofi_loop (by_id_of bookmarks) title_gen search_path post)"
proof -
  let ?m = "by_id_of bookmarks"
  obtain out st0 where pre: "rofi_loop ?m title_gen search_path pre = (out, st0)"
    by (cases "rofi_loop ?m title_gen search_path pre")
  obtain out' st' where post: "rofi_loop ?m title_gen search_path post = (out', st')"
    by (cases "rofi_loop ?m title_gen search_path post")
  have run: "write_rofi_input bookmarks fav title_gen search_path =
       then_run (out, st0)
         (rofi_loop ?m title_gen search_path ((index, parent, t, title, url) # post))"
    unfolding write_rofi_input_def
    by (subst (2) assms(1)) (simp only: rofi_loop_append pre)
  from short_row_step[OF assms(2), of title_gen parent t title url post]
  show ?thesis
  proof
    assume "\<exists>st. st \<noteq> Returned \<and>
      rofi_loop ?m title_gen search_path ((index, parent, t, title, url) # post) = ([], st)"
    then obtain st where "rofi_loop ?m title_gen search_path ((index, parent, t, title, url) # post) = ([], st)"
      by blast
    with run pre show ?thesis by (cases st0) auto
  next
    assume "rofi_loop ?m title_gen search_path ((index, parent, t, title, url) # post) =
            rofi_loop ?m title_gen search_path post"
    with run pre post show ?thesis by (cases st0) auto
  qed
qed

text \<open>
  C4, witness: the bookmark Mail of the example rows has the reversed path
  \<open>[Work, Mail]\<close>; under the filter \<open>[Work, Mail, Inbox]\<close> nothing is printed.
\<close>

theorem short_path_never_emitted_witness:
  "length (reversed_path (by_id_of example_rows) 3) < length [''Work'', ''Mail'', ''Inbox''] \<and>
   fst (write_rofi_input example_rows () title_gen_only_name [''Work'', ''Mail'', ''Inbox'']) = []"
proof -
  have split: "example_rows =
      [(1, 0, 2, Some ''root'', None), (2, 1, 2, Some ''Work'', None)]
      @ (3, 2, 1, Some ''Mail'', Some ''http://mail.example'') # []"
    by (simp add: example_rows_def)
  have short: "length (reversed_path (by_id_of example_rows) 3) < length [''Work'', ''Mail'', ''Inbox'']"
    by (simp add: reversed_path_def parent_generator_example)
  from short_path_never_emitted[OF split short, of "()" title_gen_only_name]
  have "fst (write_rofi_input example_rows () title_gen_only_name [''Work'', ''Mail'', ''Inbox'']) = []"
    by simp
  with short show ?thesis by blast
qed

text \<open>
  With the renderer \<open>title_gen_only_name\<close> the same holds already for a path that is
  not longer than the filter: a filter that uses up the whole path leaves the
  renderer nothing, and it raises.  So a bookmark is not printed either when only
  its ancestors, without its own title, are fewer than the filter.
\<close>

lemma only_name_needs_longer_path:
  assumes "length (reversed_path by_id index) \<le> length search_path"
  shows "(\<exists>st. st \<noteq> Returned \<and>
            rofi_loop by_id title_gen_only_name search_path
              ((index, parent, t, title, url) # post) = ([], st))
       \<or> rofi_loop by_id title_gen_only_name search_path ((index, parent, t, title, url) # post) =
            rofi_loop by_id title_gen_only_name search_path post"
proof (cases "t = 1")
  case False
  then show ?thesis by simp
next
  case True
  show ?thesis
  proof (cases "parent_generator index by_id")
    case None
    with True show ?thesis by simp
  next
    case (Some r)
    show ?thesis
    proof (cases r)
      case (Inl e)
      with True Some show ?thesis by simp
    next
      case (Inr titles)
      with Some assms have short: "length (rev titles) \<le> length search_path"
        by (simp add: reversed_path_def)
      show ?thesis
      proof (cases "all_next search_path (rev titles)")
        case (Inl e)
        with True Some Inr show ?thesis by simp
      next
        case inr: (Inr br)
        obtain b rest where br: "br = (b, rest)" by (cases br)
        show ?thesis
        proof (cases b)
          case False
          with True Some Inr inr br show ?thesis by simp
        next
          case b: True
          with inr br short have "rest = []" by (simp add: all_next_True)
          with True Some Inr inr br b show ?thesis by (simp add: only_name_Nil)
        qed
      qed
    qed
  qed
qed

section \<open>The empty filter (C7)\<close>

lemma filter_not_None_append:
  "filter_not_None (xs @ ys) = filter_not_None xs @ filter_not_None ys"
  by (induction xs rule: filter_not_None.induct) simp_all

lemma filter_not_None_rev: "filter_not_None (rev xs) = rev (filter_not_None xs)"
  by (induction xs rule: filter_not_None.induct) (simp_all add: filter_not_None_append)

text \<open>
  Where every row of type 1 has a walk that returns and yields at least one title
  that is present, the run with the empty filter returns and prints one line for
  each row of type 1 and none for the others.
\<close>

lemma empty_filter_lists_titled_bookmarks:
  assumes "\<forall>row \<in> set bookmarks. fst (snd (snd row)) = 1 \<longrightarrow>
             (\<exists>titles. parent_generator (fst row) by_id = Some (Inr titles) \<and>
                       filter_not_None titles \<noteq> [])"
  shows "\<exists>out. rofi_loop by_id title_gen_only_name [] bookmarks = (out, Returned) \<and>
               length out = length (filter (\<lambda>row. fst (snd (snd row)) = 1) bookmarks)"
  using assms
proof (induction bookmarks)
  case Nil
  show ?case by simp
next
  case (Cons x xs)
  obtain index parent t title url where x: "x = (index, parent, t, title, url)"
    by (cases x)
  from Cons.prems have "\<forall>row \<in> set xs. fst (snd (snd row)) = 1 \<longrightarrow>
             (\<exists>titles. parent_generator (fst row) by_id = Some (Inr titles) \<and>
                       filter_not_None titles \<noteq> [])"
    by simp
  from Cons.IH[OF this] obtain out where
    rest: "rofi_loop by_id title_gen_only_name [] xs = (out, Returned)"
    and len: "length out = length (filter (\<lambda>row. fst (snd (snd row)) = 1) xs)"
    by blast
  show ?case
  proof (cases "t = 1")
    case False
    with x rest len show ?thesis by simp
  next
    case True
    from Cons.prems x True obtain titles where
      pg: "parent_generator index by_id = Some (Inr titles)" and ne: "filter_not_None titles \<noteq> []"
      by auto
    from ne have "title_gen_only_name (rev titles) = Inr (last (filter_not_None (rev titles)))"
      by (simp add: title_gen_only_name_def filter_not_None_rev)
    with x True pg rest len show ?thesis by simp
  qed
qed

text \<open>
  C7, the code at the failing input.  The bookmark with id 2 sits directly under
  the root and its chain reaches the root sentinel, but its title is absent: with
  the empty filter the run prints no line for it and raises \<^verbatim>\<open>IndexError\<close>,
  because \<open>title_gen_only_name\<close> takes the last element of a list left empty once
  the absent titles are filtered out.
\<close>

theorem untitled_bookmark_raises_IndexError:
  "chain (by_id_of untitled_rows) 2 [2] \<and>
   write_rofi_input untitled_rows () title_gen_only_name [] = ([], Raised IndexError)"
proof -
  have m: "by_id_of untitled_rows = [1 \<mapsto> (Some ''root'', 0), 2 \<mapsto> (None, 1)]"
    by (simp add: by_id_of_def untitled_rows_def)
  have "chain (by_id_of untitled_rows) 2 [2]"
    unfolding m by (rule chain_step[where title = None and p = 1], simp, simp, rule chain_root, simp)
  moreover have "write_rofi_input untitled_rows () title_gen_only_name [] = ([], Raised IndexError)"
    by (simp add: write_rofi_input_def untitled_rows_def by_id_of_def parent_generator_eval
          title_gen_only_name_def)
  ultimately show ?thesis by blast
qed

section \<open>A filter as long as the whole path (C10)\<close>

text \<open>
  C10.  When the rows before a bookmark are handled, the bookmark's walk returns,
  and the search filter matches its reversed path and is as long as that whole path
  (the bookmark's own title included), the filter check uses up the path, the
  renderer \<open>title_gen_only_name\<close> gets the empty remainder, and the run raises
  \<^verbatim>\<open>IndexError\<close> without printing an entry for that bookmark.
\<close>

theorem filter_consuming_whole_path_raises_IndexError:
  assumes "bookmarks = pre @ (index, parent, 1, title, url) # post"
      and "rofi_loop (by_id_of bookmarks) title_gen_only_name search_path pre = (out, Returned)"
      and "parent_generator index (by_id_of bookmarks) = Some (Inr titles)"
      and "filter_matches search_path (rev titles)"
      and "length search_path = length titles"
  shows "all_next search_path (rev titles) = Inr (True, [])
       \<and> write_rofi_input bookmarks fav title_gen_only_name search_path = (out, Raised IndexError)"
proof -
  from assms(4,5) have an: "all_next search_path (rev titles) = Inr (True, [])"
    by (simp add: all_next_True)
  with assms(3) have row:
    "rofi_loop (by_id_of bookmarks) title_gen_only_name search_path
       ((index, parent, 1, title, url) # post) = ([], Raised IndexError)"
    by (simp add: only_name_Nil)
  have "write_rofi_input bookmarks fav title_gen_only_name search_path =
          then_run (out, Returned) ([], Raised IndexError)"
    unfolding write_rofi_input_def
    by (subst (2) assms(1)) (simp only: rofi_loop_append assms(2) row)
  with an show ?thesis by simp
qed

text \<open>
  C10, witness: the example rows, which are well formed, with the non-empty filter
  \<open>[Work, Mail]\<close>, the whole reversed path of the bookmark Mail.
\<close>

theorem filter_consuming_whole_path_raises_IndexError_witness:
  "[''Work'', ''Mail''] \<noteq> [] \<and>
   filter_matches [''Work'', ''Mail''] (reversed_path (by_id_of example_rows) 3) \<and>
   write_rofi_input example_rows () title_gen_only_name [''Work'', ''Mail''] = ([], Raised IndexError)"
proof -
  have split: "example_rows =
      [(1, 0, 2, Some ''root'', None), (2, 1, 2, Some ''Work'', None)]
      @ (3, 2, 1, Some ''Mail'', Some ''http://mail.example'') # []"
    by (simp add: example_rows_def)
  have pre: "rofi_loop (by_id_of example_rows) title_gen_only_name [''Work'', ''Mail'']
               [(1, 0, 2, Some ''root'', None), (2, 1, 2, Some ''Work'', None)] = ([], Returned)"
    by simp
  have fm: "filter_matches [''Work'', ''Mail''] (rev [Some ''Mail'', Some ''Work''])"
    by (simp add: filter_matches_simps)
  have len: "length [''Work'', ''Mail''] = length [Some ''Mail'', Some ''Work'']"
    by simp
  from filter_consuming_whole_path_raises_IndexError[OF split pre parent_generator_example fm len, of "()"]
  have "write_rofi_input example_rows () title_gen_only_name [''Work'', ''Mail''] = ([], Raised IndexError)"
    by simp
  with fm show ?thesis by (simp add: reversed_path_def parent_generator_example)
qed

section \<open>The temporary copy is released (C6)\<close>

text \<open>
  C6.  Whatever the source path and the body, after \<open>temp_sqlite\<close> the temporary
  file does not exist.  If the source could be copied, the body ran on the open
  connection to the copy, what it returned or raised is what \<open>temp_sqlite\<close> returns
  or raises, and the connection is closed afterwards.  If the copy failed, an error
  is raised and no connection was opened.
\<close>

theorem temp_sqlite_releases_on_every_exit:
  assumes "temp_sqlite tmp path body w = (r, w')"
  shows "files w' (PurePath tmp) = None \<and>
         (if path \<noteq> PurePath tmp \<and> files w path \<noteq> None
          then PurePath tmp \<notin> open_conns w' \<and>
               (\<exists>w3 w4. body (PurePath tmp) w3 = (r, w4) \<and>
                         files w3 (PurePath tmp) = files w path \<and>
                         PurePath tmp \<in> open_conns w3)
          else open_conns w' = open_conns w \<and> (\<exists>e. r = Inl e))"
proof (cases "path = PurePath tmp")
  case True
  with assms show ?thesis by (auto simp: temp_sqlite_def Let_def unlink_def)
next
  case False
  show ?thesis
  proof (cases "files w path")
    case None
    with False assms show ?thesis by (auto simp: temp_sqlite_def Let_def unlink_def)
  next
    case (Some content)
    let ?w3 = "w\<lparr>files := (files w)(PurePath tmp \<mapsto> content),
                  open_conns := insert (PurePath tmp) (open_conns w)\<rparr>"
    obtain r0 w4 where b: "body (PurePath tmp) ?w3 = (r0, w4)"
      by (cases "body (PurePath tmp) ?w3")
    from assms False Some b have r: "r = r0"
      and w': "w' = unlink (PurePath tmp) (close_conn (PurePath tmp) w4)"
      by (auto simp: temp_sqlite_def Let_def)
    from w' have gone: "files w' (PurePath tmp) = None"
      and closed: "PurePath tmp \<notin> open_conns w'"
      by (simp_all add: unlink_def close_conn_def)
    have "body (PurePath tmp) ?w3 = (r, w4) \<and> files ?w3 (PurePath tmp) = files w path
          \<and> PurePath tmp \<in> open_conns ?w3"
      using b r Some by simp
    then have ran: "\<exists>w3 w4. body (PurePath tmp) w3 = (r, w4) \<and>
        files w3 (PurePath tmp) = files w path \<and> PurePath tmp \<in> open_conns w3"
      by blast
    from gone closed ran False Some show ?thesis by simp
  qed
qed

text \<open>
  C6, witness: a body that raises.  The exception is passed on, the temporary file
  is gone and the connection is closed.
\<close>

theorem temp_sqlite_releases_on_every_exit_witness:
  "fst (temp_sqlite ''/tmp/tmpabc'' (Div (PurePath ''/profile'') ''places.sqlite'')
          failing_body example_world) = Inl DatabaseError \<and>
   files (snd (temp_sqlite ''/tmp/tmpabc'' (Div (PurePath ''/profile'') ''places.sqlite'')
          failing_body example_world)) (PurePath ''/tmp/tmpabc'') = None \<and>
   PurePath ''/tmp/tmpabc'' \<notin> open_conns (snd (temp_sqlite ''/tmp/tmpabc''
          (Div (PurePath ''/profile'') ''places.sqlite'') failing_body example_world))"
proof -
  have raised: "fst (temp_sqlite ''/tmp/tmpabc'' (Div (PurePath ''/profile'') ''places.sqlite'')
          failing_body example_world) = Inl DatabaseError"
    by (simp add: temp_sqlite_def Let_def example_world_def failing_body_def)
  have src: "Div (PurePath ''/profile'') ''places.sqlite'' \<noteq> PurePath ''/tmp/tmpabc'' \<and>
             files example_world (Div (PurePath ''/profile'') ''places.sqlite'') \<noteq> None"
    by (simp add: example_world_def)
  from temp_sqlite_releases_on_every_exit[OF prod.collapse[symmetric],
         of "''/tmp/tmpabc''" "Div (PurePath ''/profile'') ''places.sqlite''" failing_body example_world]
       raised src
  show ?thesis by simp
qed

section \<open>Resolving a profile by name (C8)\<close>

lemma path_from_name_loop_skip:
  "\<forall>j \<in> set pre. \<not> stops_scan name j \<Longrightarrow>
   path_from_name_loop firefox_dir (pre @ rest) name = path_from_name_loop firefox_dir rest name"
  by (induction pre) (auto simp: stops_scan_def split: lookup.splits)

lemma path_from_name_loop_unnamed:
  "\<forall>j \<in> set sections. j ''Name'' \<noteq> Found name \<Longrightarrow>
   \<exists>e. path_from_name_loop firefox_dir sections name = Inl e"
  by (induction sections) (auto split: lookup.splits)

text \<open>
  C8, as the code has it.  \<open>path_from_name\<close> goes through the sections in order.
  When no lookup of \<^verbatim>\<open>Name\<close> raises in the sections before the first one whose
  \<^verbatim>\<open>Name\<close> equals the requested name, it returns the profile root joined with the
  \<^verbatim>\<open>Path\<close> of that section.  An exception other than \<^verbatim>\<open>KeyError\<close> raised by the
  lookup of a \<^verbatim>\<open>Name\<close> on the way, or of the \<^verbatim>\<open>Path\<close> of that section, is raised by
  \<open>path_from_name\<close>.  It raises whenever no section's \<^verbatim>\<open>Name\<close> equals the requested
  name, with \<^verbatim>\<open>Exception("no profile with this name")\<close> if no lookup raised, and
  whenever reading the file raises.
\<close>

theorem path_from_name_first_named_section:
  "(sections = pre @ i # post \<and> (\<forall>j \<in> set pre. \<not> stops_scan name j) \<and>
    i ''Name'' = Found name \<and> i ''Path'' = Found p \<longrightarrow>
      path_from_name firefox_dir (Inr sections) name = Inr (Div firefox_dir p))
   \<and> (sections = pre @ i # post \<and> (\<forall>j \<in> set pre. \<not> stops_scan name j) \<and>
       (i ''Name'' = LookupError e \<or> i ''Name'' = Found name \<and> i ''Path'' = LookupError e) \<longrightarrow>
         path_from_name firefox_dir (Inr sections) name = Inl e)
   \<and> ((\<forall>j \<in> set sections. j ''Name'' \<noteq> Found name) \<longrightarrow>
         (\<exists>e'. path_from_name firefox_dir (Inr sections) name = Inl e'))
   \<and> ((\<forall>j \<in> set sections. \<not> stops_scan name j) \<longrightarrow>
         path_from_name firefox_dir (Inr sections) name =
           Inl (Exception ''no profile with this name''))
   \<and> path_from_name firefox_dir (Inl e) name = Inl e"
proof (intro conjI impI)
  assume "sections = pre @ i # post \<and> (\<forall>j \<in> set pre. \<not> stops_scan name j) \<and>
    i ''Name'' = Found name \<and> i ''Path'' = Found p"
  then show "path_from_name firefox_dir (Inr sections) name = Inr (Div firefox_dir p)"
    by (simp add: path_from_name_def path_from_name_loop_skip)
next
  assume "sections = pre @ i # post \<and> (\<forall>j \<in> set pre. \<not> stops_scan name j) \<and>
       (i ''Name'' = LookupError e \<or> i ''Name'' = Found name \<and> i ''Path'' = LookupError e)"
  then show "path_from_name firefox_dir (Inr sections) name = Inl e"
    by (auto simp: path_from_name_def path_from_name_loop_skip)
next
  assume "\<forall>j \<in> set sections. j ''Name'' \<noteq> Found name"
  then show "\<exists>e'. path_from_name firefox_dir (Inr sections) name = Inl e'"
    by (simp add: path_from_name_def path_from_name_loop_unnamed)
next
  assume "\<forall>j \<in> set sections. \<not> stops_scan name j"
  then have "path_from_name_loop firefox_dir (sections @ []) name =
             path_from_name_loop firefox_dir [] name"
    by (rule path_from_name_loop_skip)
  then show "path_from_name firefox_dir (Inr sections) name =
           Inl (Exception ''no profile with this name'')"
    by (simp add: path_from_name_def)
next
  show "path_from_name firefox_dir (Inl e) name = Inl e"
    by (simp add: path_from_name_def)
qed

text \<open>
  C8, witness: in a file with the defaults and the profiles home and work, the
  request for work passes over the first two sections and returns the path of the
  third; no section is named play; a file that cannot be read raises.
\<close>

theorem path_from_name_first_named_section_witness:
  "named_sections =
     [section_of Map.empty,
      section_of [''Name'' \<mapsto> ''home'', ''Path'' \<mapsto> ''Profiles/a.home'']]
     @ section_of [''Name'' \<mapsto> ''work'', ''Path'' \<mapsto> ''Profiles/b.work''] # [] \<and>
   path_from_name (PurePath ''/home/u/.mozilla/firefox'') (Inr named_sections) ''work'' =
     Inr (Div (PurePath ''/home/u/.mozilla/firefox'') ''Profiles/b.work'') \<and>
   path_from_name (PurePath ''/home/u/.mozilla/firefox'') (Inr named_sections) ''play'' =
     Inl (Exception ''no profile with this name'') \<and>
   path_from_name (PurePath ''/home/u/.mozilla/firefox'') (Inl ConfigError) ''work'' =
     Inl ConfigError"
proof -
  let ?fd = "PurePath ''/home/u/.mozilla/firefox''"
  let ?pre = "[section_of Map.empty,
               section_of [''Name'' \<mapsto> ''home'', ''Path'' \<mapsto> ''Profiles/a.home'']]"
  let ?i = "section_of [''Name'' \<mapsto> ''work'', ''Path'' \<mapsto> ''Profiles/b.work'']"
  have split: "named_sections = ?pre @ ?i # []"
    by (simp add: named_sections_def)
  have pre: "\<forall>j \<in> set ?pre. \<not> stops_scan ''work'' j"
    by (simp add: stops_scan_def section_of_def)
  have i: "?i ''Name'' = Found ''work'' \<and> ?i ''Path'' = Found ''Profiles/b.work''"
    by (simp add: section_of_def)
  have play: "\<forall>j \<in> set named_sections. \<not> stops_scan ''play'' j"
    by (simp add: named_sections_def stops_scan_def section_of_def)
  from path_from_name_first_named_section[of named_sections ?pre ?i "[]" "''work''"
         "''Profiles/b.work''" ?fd ConfigError] split pre i
  have work: "path_from_name ?fd (Inr named_sections) ''work'' = Inr (Div ?fd ''Profiles/b.work'')"
    and unread: "path_from_name ?fd (Inl ConfigError) ''work'' = Inl ConfigError"
    by blast+
  from path_from_name_first_named_section[of named_sections _ _ _ "''play''" _ ?fd] play
  have "path_from_name ?fd (Inr named_sections) ''play'' = Inl (Exception ''no profile with this name'')"
    by blast
  with split work unread show ?thesis by blast
qed

text \<open>
  C8, counterexample: both sections have a \<^verbatim>\<open>Name\<close> and a \<^verbatim>\<open>Path\<close> key, and the
  first section whose \<^verbatim>\<open>Name\<close> equals work is the second one, with the path
  \<^verbatim>\<open>Profiles/b.work\<close>.  The resolver does not return that path: looking up the
  \<^verbatim>\<open>Name\<close> of the section before it raises, and that exception leaves the function.
\<close>

theorem path_from_name_raises_on_earlier_lookup:
  "length percent_sections = 2 \<and>
   (percent_sections ! 0) ''Name'' = LookupError InterpolationError \<and>
   (percent_sections ! 0) ''Path'' = Found ''Profiles/a.half'' \<and>
   (percent_sections ! 1) ''Name'' = Found ''work'' \<and>
   (percent_sections ! 1) ''Path'' = Found ''Profiles/b.work'' \<and>
   spec_first_named percent_sections ''work'' = Some (percent_sections ! 1) \<and>
   path_from_name (PurePath ''/home/u/.mozilla/firefox'') (Inr percent_sections) ''work'' =
     Inl InterpolationError"
  by (simp add: spec_first_named_def percent_sections_def path_from_name_def section_of_def)

section \<open>The separator argument in list mode (C9)\<close>

text \<open>
  C9.  Two list-mode runs that differ only in the separator argument (same
  platform, same path and profile arguments, same files) do the same: the same
  lines on standard output, the same ending, the same files left.
\<close>

theorem separator_has_no_effect_on_list_mode:
  "list_mode pf (a\<lparr>args_separator := s\<rparr>) w = list_mode pf (a\<lparr>args_separator := s'\<rparr>) w"
  by (simp add: list_mode_def)

lemma example_list_mode:
  "fst (list_mode example_platform example_args profile_world) =
     ([prompt_line, entry_line ''Mail'' (Some ''http://mail.example'')], Returned)"
  using example_run_Work
  by (simp add: list_mode_def example_platform_def example_args_def profile_world_def
        firefox_dir_of_def default_profile_path_def section_of_def get_bookmarks_from_db_def
        temp_sqlite_def
        Let_def favicons_generator_def write_rofi_input_def)

text \<open>
  C9, witness: a run on the example rows restricted to the folder Work prints the
  prompt line and the entry of Mail, with the separator \<^verbatim>\<open>>\<close> as with \<^verbatim>\<open>" / "\<close>.
\<close>

theorem separator_has_no_effect_on_list_mode_witness:
  "list_mode example_platform (example_args\<lparr>args_separator := ''>''\<rparr>) profile_world =
   list_mode example_platform (example_args\<lparr>args_separator := '' / ''\<rparr>) profile_world \<and>
   fst (list_mode example_platform (example_args\<lparr>args_separator := ''>''\<rparr>) profile_world) =
     ([prompt_line, entry_line ''Mail'' (Some ''http://mail.example'')], Returned)"
  using separator_has_no_effect_on_list_mode[where pf = example_platform and a = example_args
          and s = "''>''" and w = profile_world and s' = "'' / ''"]
        example_list_mode
  by (simp add: example_args_def)

end
